theory Spec2Isabelle
  imports Complex_Main "HOL-Library.Word"
begin

section \<open>The camera listener: data model\<close>

text \<open>
  The program is \<^verbatim>\<open>desktop-listener/main.py\<close>. Python \<^verbatim>\<open>bytes\<close> are lists of 8-bit
  words, Python floats (the readings of \<^verbatim>\<open>time.time()\<close>, fps, latency) are reals, so
  IEEE rounding is abstracted, and Python exceptions are values of \<open>exn\<close>.
\<close>

type_synonym byte = "8 word"
type_synonym bytes = "byte list"

datatype exn =
    SocketTimeout
  | OSError
  | StructError
  | QueueEmpty
  | QueueFull
  | UnicodeDecodeError
  | JSONDecodeError
  | AttributeError
  | OtherError

text \<open>What \<^verbatim>\<open>json.loads\<close> can return; a dict is the list of its items (keys distinct).\<close>

datatype json =
    JNull
  | JBool bool
  | JInt int
  | JFloat real
  | JStr string
  | JArr "json list"
  | JObj "(string \<times> json) list"

subsection \<open>\<^verbatim>\<open>queue.Queue\<close>\<close>

text \<open>
  The standard library's queue, as far as the program uses it: \<^verbatim>\<open>maxsize <= 0\<close> means
  unbounded, \<^verbatim>\<open>put_nowait\<close> raises \<^verbatim>\<open>Full\<close> and \<^verbatim>\<open>get_nowait\<close> raises \<^verbatim>\<open>Empty\<close>
  instead of blocking. An item is a pair \<^verbatim>\<open>(frame_data, timestamp)\<close>.
\<close>

type_synonym frame = "bytes \<times> real"

record py_queue =
  maxsize :: int
  items :: "frame list"

definition Queue :: "int \<Rightarrow> py_queue" where
  "Queue m = \<lparr>maxsize = m, items = []\<rparr>"

definition empty_q :: "py_queue \<Rightarrow> bool" where
  "empty_q q = (items q = [])"

definition get_nowait :: "py_queue \<Rightarrow> exn + (frame \<times> py_queue)" where
  "get_nowait q =
     (case items q of
        [] \<Rightarrow> Inl QueueEmpty
      | x # xs \<Rightarrow> Inr (x, q\<lparr>items := xs\<rparr>))"

definition put_nowait :: "py_queue \<Rightarrow> frame \<Rightarrow> exn + py_queue" where
  "put_nowait q x =
     (if maxsize q > 0 \<and> int (length (items q)) \<ge> maxsize q then Inl QueueFull
      else Inr (q\<lparr>items := items q @ [x]\<rparr>))"

subsection \<open>\<^verbatim>\<open>FrameStats\<close> and \<^verbatim>\<open>VideoServer\<close>\<close>

record FrameStats =
  fps :: real
  latency_ms :: real
  last_updated :: real
  camera_id :: json

text \<open>
  The fields of \<^verbatim>\<open>VideoServer\<close> that the ingestion path reads or writes. The server's own
  \<^verbatim>\<open>camera_id\<close> is \<open>server_camera_id\<close> (the name \<open>camera_id\<close> is the stats field).
\<close>

record VideoServer =
  host :: string
  port :: int
  frame_queue :: py_queue
  stats :: FrameStats
  server_camera_id :: json

section \<open>\<^verbatim>\<open>VideoServer._push_frame\<close>\<close>

text \<open>
  The draining loop \<^verbatim>\<open>while not q.empty(): try: q.get_nowait() except Empty: break\<close>.
  An exception other than \<^verbatim>\<open>queue.Empty\<close> would leave the loop and the method.
\<close>

function drain :: "py_queue \<Rightarrow> exn + py_queue" where
  "drain q =
     (if \<not> empty_q q then
        (case get_nowait q of
           Inl e \<Rightarrow> (if e = QueueEmpty then Inr q else Inl e)
         | Inr (x, q') \<Rightarrow> drain q')
      else Inr q)"
  by pat_completeness auto
termination
  by (relation "measure (\<lambda>q. length (items q))")
     (auto simp: get_nowait_def empty_q_def split: list.splits)

declare drain.simps [simp del]

definition push_frame :: "VideoServer \<Rightarrow> bytes \<Rightarrow> real \<Rightarrow> exn + VideoServer" where
  "push_frame self frame_data timestamp =
     (case drain (frame_queue self) of
        Inl e \<Rightarrow> Inl e
      | Inr q \<Rightarrow>
          (case (case put_nowait q (frame_data, timestamp) of
                   Inl e \<Rightarrow> (if e = QueueFull then Inr q else Inl e)
                 | Inr q' \<Rightarrow> Inr q') of
             Inl e \<Rightarrow> Inl e
           | Inr q2 \<Rightarrow>
               Inr (self\<lparr>frame_queue := q2,
                         stats := (stats self)\<lparr>last_updated := timestamp\<rparr>\<rparr>)))"

section \<open>The client socket\<close>

text \<open>
  What the successive \<^verbatim>\<open>recv_into\<close> calls on the client socket will meet: a non-empty
  chunk of bytes that has arrived, a read timeout, or a transport error
  (\<^verbatim>\<open>ConnectionError\<close> and every other \<^verbatim>\<open>OSError\<close>). When the list is used up the peer
  has closed and \<^verbatim>\<open>recv_into\<close> returns 0 bytes. A call takes at most the size of its
  buffer from the chunk and leaves the rest for the next call.
\<close>

datatype recv_event = Chunk byte "byte list" | RecvTimeout | RecvOSError

type_synonym socket = "recv_event list"

fun recv_into :: "socket \<Rightarrow> nat \<Rightarrow> (exn + bytes) \<times> socket" where
  "recv_into [] n = (Inr [], [])"
| "recv_into (RecvTimeout # s) n = (Inl SocketTimeout, s)"
| "recv_into (RecvOSError # s) n = (Inl OSError, s)"
| "recv_into (Chunk b bs # s) n =
     (Inr (take n (b # bs)),
      (case drop n (b # bs) of [] \<Rightarrow> s | c # cs \<Rightarrow> Chunk c cs # s))"

text \<open>
  \<^verbatim>\<open>VideoServer._recvall\<close>. The accumulator \<open>data\<close> is the part of the buffer filled so
  far, so \<^verbatim>\<open>received\<close> is its length. \<open>None\<close> is Python's \<^verbatim>\<open>None\<close>: a timeout or a
  closed peer; any other exception of \<^verbatim>\<open>recv_into\<close> propagates.
\<close>

function recvall_loop :: "socket \<Rightarrow> nat \<Rightarrow> bytes \<Rightarrow> (exn + bytes option) \<times> socket" where
  "recvall_loop s len data =
     (if length data < len then
        (case recv_into s (len - length data) of
           (Inl e, s') \<Rightarrow> (if e = SocketTimeout then (Inr None, s') else (Inl e, s'))
         | (Inr chunk, s') \<Rightarrow>
             (if chunk = [] then (Inr None, s')
              else recvall_loop s' len (data @ chunk)))
      else (Inr (Some data), s))"
  by pat_completeness auto
termination
  by (relation "measure (\<lambda>(s, len, data). len - length data)")
     (auto simp: neq_Nil_conv)

declare recvall_loop.simps [simp del]

definition recvall :: "socket \<Rightarrow> nat \<Rightarrow> (exn + bytes option) \<times> socket" where
  "recvall s len = recvall_loop s len []"

text \<open>\<^verbatim>\<open>struct.unpack('>I', header)\<close>: four bytes, big-endian, unsigned.\<close>

definition unpack_be32 :: "bytes \<Rightarrow> exn + nat" where
  "unpack_be32 h =
     (case h of
        [a, b, c, d] \<Rightarrow> Inr (unat a * 2 ^ 24 + unat b * 2 ^ 16 + unat c * 2 ^ 8 + unat d)
      | _ \<Rightarrow> Inl StructError)"

text \<open>
  The client's side of the wire format, \<^verbatim>\<open>struct.pack('>I', L)\<close>, following the
  specification's words "4-byte big-endian length".
\<close>

definition pack_be32 :: "nat \<Rightarrow> bytes" where
  "pack_be32 L =
     [of_nat (L div 2 ^ 24), of_nat (L div 2 ^ 16), of_nat (L div 2 ^ 8), of_nat L]"

section \<open>The environment of a client session\<close>

text \<open>
  Besides the socket, \<^verbatim>\<open>_handle_client\<close> reads the clock and the shutdown flag, which
  another thread may clear at any moment: \<open>clock w k\<close> is the value of the \<open>k\<close>-th call
  of \<^verbatim>\<open>time.time()\<close> and \<open>flag w k\<close> the result of the \<open>k\<close>-th
  \<^verbatim>\<open>self._should_run.is_set()\<close>.
\<close>

record world =
  sock :: socket
  clock :: "nat \<Rightarrow> real"
  ticks :: nat
  flag :: "nat \<Rightarrow> bool"
  checks :: nat

definition time_now :: "world \<Rightarrow> real \<times> world" where
  "time_now w = (clock w (ticks w), w\<lparr>ticks := Suc (ticks w)\<rparr>)"

definition is_set :: "world \<Rightarrow> bool \<times> world" where
  "is_set w = (flag w (checks w), w\<lparr>checks := Suc (checks w)\<rparr>)"

section \<open>\<^verbatim>\<open>VideoServer._handle_client\<close>\<close>

subsection \<open>The optional metadata handshake\<close>

text \<open>\<^verbatim>\<open>metadata.get('camera_id', default)\<close>: only a dict has the method.\<close>

definition dict_get :: "json \<Rightarrow> string \<Rightarrow> json \<Rightarrow> exn + json" where
  "dict_get metadata k d =
     (case metadata of
        JObj kvs \<Rightarrow> Inr (case map_of kvs k of Some v \<Rightarrow> v | None \<Rightarrow> d)
      | _ \<Rightarrow> Inl AttributeError)"

text \<open>
  The inner \<^verbatim>\<open>try\<close>. The parameter \<open>loads\<close> is the library's
  \<^verbatim>\<open>json.loads(metadata_bytes.decode('utf-8'))\<close>, which raises
  \<^verbatim>\<open>UnicodeDecodeError\<close> or \<^verbatim>\<open>JSONDecodeError\<close> (or something else) or returns a value.
\<close>

definition parse_metadata :: "(bytes \<Rightarrow> exn + json) \<Rightarrow> VideoServer \<Rightarrow> bytes \<Rightarrow> exn + VideoServer" where
  "parse_metadata loads self metadata_bytes =
     (case (case loads metadata_bytes of
              Inl e \<Rightarrow> Inl e
            | Inr metadata \<Rightarrow>
                (case dict_get metadata ''camera_id'' (server_camera_id self) of
                   Inl e \<Rightarrow> Inl e
                 | Inr cid \<Rightarrow>
                     Inr (self\<lparr>server_camera_id := cid,
                               stats := (stats self)\<lparr>camera_id := cid\<rparr>\<rparr>))) of
        Inl e \<Rightarrow> (if e = JSONDecodeError \<or> e = UnicodeDecodeError then Inr self else Inl e)
      | Inr self' \<Rightarrow> Inr self')"

text \<open>The body of the outer \<^verbatim>\<open>try\<close>.\<close>

definition handshake_try ::
  "(bytes \<Rightarrow> exn + json) \<Rightarrow> VideoServer \<Rightarrow> socket \<Rightarrow> (exn + VideoServer) \<times> socket" where
  "handshake_try loads self s =
     (case recvall s 4 of
        (Inl e, s1) \<Rightarrow> (Inl e, s1)
      | (Inr None, s1) \<Rightarrow> (Inr self, s1)
      | (Inr (Some metadata_header), s1) \<Rightarrow>
          (if metadata_header = [] then (Inr self, s1)
           else
             (case unpack_be32 metadata_header of
                Inl e \<Rightarrow> (Inl e, s1)
              | Inr metadata_length \<Rightarrow>
                  (if 0 < metadata_length \<and> metadata_length < 1024 then
                     (case recvall s1 metadata_length of
                        (Inl e, s2) \<Rightarrow> (Inl e, s2)
                      | (Inr None, s2) \<Rightarrow> (Inr self, s2)
                      | (Inr (Some metadata_bytes), s2) \<Rightarrow>
                          (if metadata_bytes = [] then (Inr self, s2)
                           else (parse_metadata loads self metadata_bytes, s2)))
                   else (Inr self, s1)))))"

text \<open>The outer handler is a bare \<^verbatim>\<open>except: pass\<close>: every exception is dropped.\<close>

definition handshake ::
  "(bytes \<Rightarrow> exn + json) \<Rightarrow> VideoServer \<Rightarrow> socket \<Rightarrow> VideoServer \<times> socket" where
  "handshake loads self s =
     (case handshake_try loads self s of
        (Inl e, s') \<Rightarrow> (self, s')
      | (Inr self', s') \<Rightarrow> (self', s'))"

subsection \<open>The frame loop\<close>

text \<open>The server together with the locals of \<^verbatim>\<open>_handle_client\<close>.\<close>

record session =
  this :: VideoServer
  frame_count :: int
  window_start :: real

datatype 'a ctl = Break 'a | Continue 'a

text \<open>
  The end of the loop body, after \<^verbatim>\<open>now = time.time()\<close>: the push, the counter and the
  fps window.
\<close>

definition deliver :: "session \<Rightarrow> bytes \<Rightarrow> real \<Rightarrow> exn + session" where
  "deliver ss frame_data now =
     (case push_frame (this ss) frame_data now of
        Inl e \<Rightarrow> Inl e
      | Inr srv \<Rightarrow>
          (let frame_count' = frame_count ss + 1;
               elapsed = now - window_start ss
           in if elapsed \<ge> 1.0 then
                Inr \<lparr>this = srv\<lparr>stats := (stats srv)\<lparr>fps := of_int frame_count' / elapsed\<rparr>\<rparr>,
                     frame_count = 0, window_start = now\<rparr>
              else
                Inr \<lparr>this = srv, frame_count = frame_count', window_start = window_start ss\<rparr>))"

text \<open>The body of the \<^verbatim>\<open>try\<close> inside the loop.\<close>

definition frame_step :: "session \<Rightarrow> world \<Rightarrow> (exn + session ctl) \<times> world" where
  "frame_step ss w =
     (case recvall (sock w) 4 of
        (Inl e, s1) \<Rightarrow> (Inl e, w\<lparr>sock := s1\<rparr>)
      | (Inr None, s1) \<Rightarrow> (Inr (Break ss), w\<lparr>sock := s1\<rparr>)
      | (Inr (Some header), s1) \<Rightarrow>
          (if header = [] then (Inr (Break ss), w\<lparr>sock := s1\<rparr>)
           else
             (case unpack_be32 header of
                Inl e \<Rightarrow> (Inl e, w\<lparr>sock := s1\<rparr>)
              | Inr frame_length \<Rightarrow>
                  (if frame_length \<le> 0 \<or> frame_length > 5 * 1024 * 1024 then
                     (Inr (Continue ss), w\<lparr>sock := s1\<rparr>)
                   else
                     (case recvall s1 frame_length of
                        (Inl e, s2) \<Rightarrow> (Inl e, w\<lparr>sock := s2\<rparr>)
                      | (Inr None, s2) \<Rightarrow> (Inr (Break ss), w\<lparr>sock := s2\<rparr>)
                      | (Inr (Some frame_data), s2) \<Rightarrow>
                          (if frame_data = [] then (Inr (Break ss), w\<lparr>sock := s2\<rparr>)
                           else
                             (case time_now (w\<lparr>sock := s2\<rparr>) of
                                (now, w3) \<Rightarrow>
                                  (case deliver ss frame_data now of
                                     Inl e \<Rightarrow> (Inl e, w3)
                                   | Inr ss' \<Rightarrow> (Inr (Continue ss'), w3)))))))))"

text \<open>
  The handlers \<^verbatim>\<open>except (socket.timeout, ConnectionError, struct.error): break\<close> and
  \<^verbatim>\<open>except OSError: break\<close>; anything else propagates.
\<close>

definition frame_try :: "session \<Rightarrow> world \<Rightarrow> (exn + session ctl) \<times> world" where
  "frame_try ss w =
     (case frame_step ss w of
        (Inl e, w') \<Rightarrow>
          (if e = SocketTimeout \<or> e = OSError \<or> e = StructError then (Inr (Break ss), w')
           else (Inl e, w'))
      | (Inr c, w') \<Rightarrow> (Inr c, w'))"

text \<open>The size of what is still to come on a socket: the measure of the frame loop.\<close>

fun event_size :: "recv_event \<Rightarrow> nat" where
  "event_size (Chunk b bs) = Suc (Suc (length bs))"
| "event_size RecvTimeout = 1"
| "event_size RecvOSError = 1"

definition sock_size :: "socket \<Rightarrow> nat" where
  "sock_size s = sum_list (map event_size s)"

lemma recv_into_size: "recv_into s n = (r, s') \<Longrightarrow> sock_size s' \<le> sock_size s"
  by (induction s n rule: recv_into.induct)
     (auto simp: sock_size_def split: list.splits dest: arg_cong [where f = length])

lemma recv_into_progress:
  "recv_into s n = (Inr chunk, s') \<Longrightarrow> chunk \<noteq> [] \<Longrightarrow> sock_size s' < sock_size s"
  by (induction s n rule: recv_into.induct)
     (auto simp: sock_size_def split: list.splits dest: arg_cong [where f = length])

lemma recvall_loop_size:
  "recvall_loop s len data = (r, s') \<Longrightarrow> sock_size s' \<le> sock_size s"
proof (induction s len data rule: recvall_loop.induct)
  case (1 s len data)
  show ?case
  proof (cases "length data < len")
    case False
    with "1.prems" show ?thesis
      by (subst (asm) recvall_loop.simps) simp
  next
    case True
    obtain x s1 where rc: "recv_into s (len - length data) = (x, s1)"
      by (cases "recv_into s (len - length data)")
    have le: "sock_size s1 \<le> sock_size s"
      using rc by (rule recv_into_size)
    show ?thesis
    proof (cases x)
      case (Inl e)
      with "1.prems" True rc le show ?thesis
        by (subst (asm) recvall_loop.simps) (auto split: if_splits)
    next
      case (Inr chunk)
      show ?thesis
      proof (cases "chunk = []")
        case True
        with "1.prems" \<open>length data < len\<close> rc Inr le show ?thesis
          by (subst (asm) recvall_loop.simps) auto
      next
        case False
        with "1.prems" \<open>length data < len\<close> rc Inr
        have "recvall_loop s1 len (data @ chunk) = (r, s')"
          by (subst (asm) recvall_loop.simps) auto
        with "1.IH" [OF \<open>length data < len\<close> rc [symmetric] Inr False]
        have "sock_size s' \<le> sock_size s1" by simp
        with le show ?thesis by simp
      qed
    qed
  qed
qed

lemma recvall_loop_progress:
  "recvall_loop s len data = (Inr (Some d), s') \<Longrightarrow> length data < len
     \<Longrightarrow> sock_size s' < sock_size s"
proof -
  assume res: "recvall_loop s len data = (Inr (Some d), s')" and lt: "length data < len"
  obtain x s1 where rc: "recv_into s (len - length data) = (x, s1)"
    by (cases "recv_into s (len - length data)")
  show ?thesis
  proof (cases x)
    case (Inl e)
    with res lt rc show ?thesis
      by (subst (asm) recvall_loop.simps) (auto split: if_splits)
  next
    case (Inr chunk)
    show ?thesis
    proof (cases "chunk = []")
      case True
      with res lt rc Inr show ?thesis
        by (subst (asm) recvall_loop.simps) auto
    next
      case False
      with res lt rc Inr have "recvall_loop s1 len (data @ chunk) = (Inr (Some d), s')"
        by (subst (asm) recvall_loop.simps) auto
      then have "sock_size s' \<le> sock_size s1"
        by (rule recvall_loop_size)
      moreover have "sock_size s1 < sock_size s"
        using rc Inr False by (auto intro: recv_into_progress)
      ultimately show ?thesis by simp
    qed
  qed
qed

lemma recvall_progress:
  "recvall s len = (Inr (Some d), s') \<Longrightarrow> 0 < len \<Longrightarrow> sock_size s' < sock_size s"
  using recvall_loop_progress [of s len "[]" d s'] by (simp add: recvall_def)

lemma recvall_size: "recvall s len = (r, s') \<Longrightarrow> sock_size s' \<le> sock_size s"
  unfolding recvall_def by (rule recvall_loop_size)

lemma frame_step_Continue:
  assumes "frame_step ss w = (Inr (Continue ss'), w')"
  shows "sock_size (sock w') < sock_size (sock w)"
proof -
  obtain r1 s1 where r1: "recvall (sock w) 4 = (r1, s1)"
    by (cases "recvall (sock w) 4")
  from assms r1 obtain header where h: "r1 = Inr (Some header)" "header \<noteq> []"
    by (auto simp: frame_step_def split: sum.splits option.splits if_splits)
  have lt: "sock_size s1 < sock_size (sock w)"
    using r1 h by (auto intro: recvall_progress)
  from assms r1 h obtain frame_length where u: "unpack_be32 header = Inr frame_length"
    by (auto simp: frame_step_def split: sum.splits)
  show ?thesis
  proof (cases "frame_length \<le> 0 \<or> frame_length > 5 * 1024 * 1024")
    case True
    with assms r1 h u have "sock w' = s1"
      by (auto simp: frame_step_def)
    with lt show ?thesis by simp
  next
    case False
    obtain r2 s2 where r2: "recvall s1 frame_length = (r2, s2)"
      by (cases "recvall s1 frame_length")
    then have le: "sock_size s2 \<le> sock_size s1"
      by (rule recvall_size)
    from assms r1 h u False r2 have "sock w' = s2"
      by (auto simp: frame_step_def time_now_def
               split: sum.splits option.splits if_splits)
    with lt le show ?thesis by simp
  qed
qed

lemma frame_try_Continue:
  "frame_try ss w = (Inr (Continue ss'), w') \<Longrightarrow> sock_size (sock w') < sock_size (sock w)"
  unfolding frame_try_def
  by (auto split: prod.splits sum.splits if_splits dest: frame_step_Continue)

text \<open>The loop \<^verbatim>\<open>while self._should_run.is_set(): try: ... except ...: break\<close>.\<close>

function frame_loop :: "session \<Rightarrow> world \<Rightarrow> (exn + session) \<times> world" where
  "frame_loop ss w =
     (case is_set w of
        (running, w1) \<Rightarrow>
          (if \<not> running then (Inr ss, w1)
           else
             (case frame_try ss w1 of
                (Inl e, w2) \<Rightarrow> (Inl e, w2)
              | (Inr (Break ss'), w2) \<Rightarrow> (Inr ss', w2)
              | (Inr (Continue ss'), w2) \<Rightarrow> frame_loop ss' w2)))"
  by pat_completeness auto
termination
proof (relation "measure (\<lambda>(ss, w). sock_size (sock w))", goal_cases)
  case 1
  show ?case by simp
next
  case 2
  then show ?case
    by (auto simp: is_set_def dest: frame_try_Continue [OF sym])
qed

declare frame_loop.simps [simp del]

text \<open>
  The session: \<^verbatim>\<open>window_start = time.time()\<close>, the handshake, then the frame loop.
  The socket options and \<^verbatim>\<open>_client_output_stream\<close> play no part in ingestion.
\<close>

definition handle_client ::
  "(bytes \<Rightarrow> exn + json) \<Rightarrow> VideoServer \<Rightarrow> world \<Rightarrow> (exn + session) \<times> world" where
  "handle_client loads self w =
     (case time_now w of
        (t0, w0) \<Rightarrow>
          (case handshake loads self (sock w0) of
             (self', s1) \<Rightarrow>
               frame_loop \<lparr>this = self', frame_count = 0, window_start = t0\<rparr>
                 (w0\<lparr>sock := s1\<rparr>)))"

section \<open>Another thread at the queue\<close>

text \<open>
  The queue is shared with other threads: the viewer takes frames out while the ingestion
  thread is inside \<^verbatim>\<open>_push_frame\<close>, and the queue object is handed to the server from
  outside. A schedule gives, for each queue call of \<^verbatim>\<open>_push_frame\<close> in turn, what the
  other threads do to the queue just before it; a schedule that is used up means no more
  interference.
\<close>

datatype queue_op = OtherGet | OtherPut frame

fun other_thread :: "queue_op \<Rightarrow> py_queue \<Rightarrow> py_queue" where
  "other_thread OtherGet q = (case get_nowait q of Inl e \<Rightarrow> q | Inr (x, q') \<Rightarrow> q')"
| "other_thread (OtherPut x) q = (case put_nowait q x of Inl e \<Rightarrow> q | Inr q' \<Rightarrow> q')"

type_synonym schedule = "queue_op list list"

fun interfere :: "schedule \<Rightarrow> py_queue \<Rightarrow> py_queue \<times> schedule" where
  "interfere [] q = (q, [])"
| "interfere (ops # sch) q = (fold other_thread ops q, sch)"

lemma interfere_cases:
  "interfere sch q = (q', sch') \<Longrightarrow>
     (sch = [] \<and> q' = q \<and> sch' = []) \<or> length sch' < length sch"
  by (cases sch) auto

function drain_env :: "schedule \<Rightarrow> py_queue \<Rightarrow> (exn + py_queue) \<times> schedule" where
  "drain_env sch q =
     (case interfere sch q of
        (q1, sch1) \<Rightarrow>
          (if \<not> empty_q q1 then
             (case interfere sch1 q1 of
                (q2, sch2) \<Rightarrow>
                  (case get_nowait q2 of
                     Inl e \<Rightarrow> (if e = QueueEmpty then (Inr q2, sch2) else (Inl e, sch2))
                   | Inr (x, q3) \<Rightarrow> drain_env sch2 q3))
           else (Inr q1, sch1)))"
  by pat_completeness auto
termination
  by (relation "measures [\<lambda>(sch, q). length sch, \<lambda>(sch, q). length (items q)]")
     (auto simp: get_nowait_def empty_q_def split: list.splits
           dest!: interfere_cases [OF sym])

declare drain_env.simps [simp del]

definition push_frame_env ::
  "schedule \<Rightarrow> VideoServer \<Rightarrow> bytes \<Rightarrow> real \<Rightarrow> exn + VideoServer" where
  "push_frame_env sch self frame_data timestamp =
     (case drain_env sch (frame_queue self) of
        (Inl e, sch1) \<Rightarrow> Inl e
      | (Inr q, sch1) \<Rightarrow>
          (case interfere sch1 q of
             (q1, sch2) \<Rightarrow>
               (case (case put_nowait q1 (frame_data, timestamp) of
                        Inl e \<Rightarrow> (if e = QueueFull then Inr q1 else Inl e)
                      | Inr q' \<Rightarrow> Inr q') of
                  Inl e \<Rightarrow> Inl e
                | Inr q2 \<Rightarrow>
                    Inr (self\<lparr>frame_queue := q2,
                              stats := (stats self)\<lparr>last_updated := timestamp\<rparr>\<rparr>))))"

section \<open>The viewer: camera registry, polling and display\<close>

text \<open>
  An entry of \<^verbatim>\<open>ViewerApp.cameras\<close>. In the program the entry's \<^verbatim>\<open>'stats'\<close> and
  \<^verbatim>\<open>'queue'\<close> are the very objects held by the entry's server, so they are read through
  the server here.
\<close>

record camera =
  server :: VideoServer
  cam_host :: string
  cam_port :: int

record ViewerApp =
  cameras :: "string \<rightharpoonup> camera"
  active_camera_id :: "string option"
  current_image_ts :: real

text \<open>
  \<^verbatim>\<open>ViewerApp._add_camera\<close>. The default of \<^verbatim>\<open>FrameStats.last_updated\<close> is the clock
  reading taken once, when the class is defined: the parameter \<open>t_class\<close>.
\<close>

definition ViewerApp_add_camera ::
  "real \<Rightarrow> ViewerApp \<Rightarrow> string \<Rightarrow> string \<Rightarrow> int \<Rightarrow> ViewerApp" where
  "ViewerApp_add_camera t_class app cid h p =
     (let frame_queue' = Queue 1;
          stats' = \<lparr>fps = 0, latency_ms = 0, last_updated = t_class, camera_id = JStr cid\<rparr>;
          server' = \<lparr>host = h, port = p, frame_queue = frame_queue', stats = stats',
                     server_camera_id = JStr cid\<rparr>
      in app\<lparr>cameras := (cameras app)(cid \<mapsto> \<lparr>server = server', cam_host = h, cam_port = p\<rparr>)\<rparr>)"



text \<open>
  \<^verbatim>\<open>ViewerApp._display_frame\<close>. Decoding, filtering, resizing and showing the image are
  the imaging library's and the toolkit's: \<open>renders frame_data\<close> says whether they go
  through without an exception; if not, the handler returns at once. \<open>now\<close> is the clock
  reading taken after the image is shown.
\<close>

definition active_in :: "ViewerApp \<Rightarrow> string option" where
  "active_in app =
     (case active_camera_id app of
        None \<Rightarrow> None
      | Some cid \<Rightarrow> (if cid \<noteq> [] \<and> cid \<in> dom (cameras app) then Some cid else None))"

definition display_frame ::
  "(bytes \<Rightarrow> bool) \<Rightarrow> real \<Rightarrow> ViewerApp \<Rightarrow> bytes \<Rightarrow> real \<Rightarrow> ViewerApp" where
  "display_frame renders now app frame_data timestamp =
     (if \<not> renders frame_data then app
      else
        (case active_in app of
           None \<Rightarrow> app\<lparr>current_image_ts := now\<rparr>
         | Some cid \<Rightarrow>
             (case cameras app cid of
                None \<Rightarrow> app\<lparr>current_image_ts := now\<rparr>
              | Some cam \<Rightarrow>
                  (let srv = server cam;
                       stats' = (stats srv)\<lparr>latency_ms := max ((now - timestamp) * 1000.0) 0.0\<rparr>
                   in app\<lparr>cameras := (cameras app)(cid \<mapsto> cam\<lparr>server := srv\<lparr>stats := stats'\<rparr>\<rparr>),
                          current_image_ts := now\<rparr>))))"

text \<open>
  \<^verbatim>\<open>ViewerApp._poll_frames\<close>: take the frame of the active camera, if there is one, and
  display it; \<^verbatim>\<open>queue.Empty\<close> is passed over.
\<close>

definition poll_frames :: "(bytes \<Rightarrow> bool) \<Rightarrow> real \<Rightarrow> ViewerApp \<Rightarrow> exn + ViewerApp" where
  "poll_frames renders now app =
     (case active_in app of
        None \<Rightarrow> Inr app
      | Some cid \<Rightarrow>
          (case cameras app cid of
             None \<Rightarrow> Inr app
           | Some cam \<Rightarrow>
               (case get_nowait (frame_queue (server cam)) of
                  Inl e \<Rightarrow> (if e = QueueEmpty then Inr app else Inl e)
                | Inr ((frame_data, timestamp), q') \<Rightarrow>
                    Inr (display_frame renders now
                           (app\<lparr>cameras := (cameras app)
                                   (cid \<mapsto> cam\<lparr>server := (server cam)\<lparr>frame_queue := q'\<rparr>\<rparr>)\<rparr>)
                           frame_data timestamp))))"

text \<open>
  \<^verbatim>\<open>ViewerApp.__init__\<close>, as far as the registry goes: an empty registry, the first
  camera \<^verbatim>\<open>"Camera 1"\<close> on the host and port of the command line, made the active one.
\<close>

definition ViewerApp_init :: "real \<Rightarrow> string \<Rightarrow> int \<Rightarrow> ViewerApp" where
  "ViewerApp_init t_class h p =
     (ViewerApp_add_camera t_class
        \<lparr>cameras = Map.empty, active_camera_id = None, current_image_ts = 0\<rparr>
        ''Camera 1'' h p)
     \<lparr>active_camera_id := Some ''Camera 1'', current_image_ts := 0.0\<rparr>"

section \<open>\<^verbatim>\<open>VideoServer.start\<close> and \<^verbatim>\<open>VideoServer.stop\<close>\<close>

text \<open>
  The fields of \<^verbatim>\<open>VideoServer\<close> that \<^verbatim>\<open>start\<close> and \<^verbatim>\<open>stop\<close> read or write: the event
  \<^verbatim>\<open>_should_run\<close>, the thread \<^verbatim>\<open>_server_thread\<close> (\<open>NoThread\<close> is \<^verbatim>\<open>None\<close>, the other two
  are a thread object by its \<^verbatim>\<open>is_alive()\<close>) and \<^verbatim>\<open>_client_socket\<close>. A socket object
  is shared with the thread that serves the client, so the field holds a reference and
  \<open>socks\<close> is the store of the socket objects. A \<open>Broken\<close> socket is one whose connection
  the operating system has already given up: \<^verbatim>\<open>shutdown\<close> and \<^verbatim>\<open>close\<close> raise
  \<^verbatim>\<open>OSError\<close> on it, and \<^verbatim>\<open>close\<close> releases it all the same.
\<close>

datatype conn = Connected | ShutRDWR | Broken | Closed

datatype thread_state = NoThread | Alive | Exited

record lifecycle =
  should_run :: bool
  server_thread :: thread_state
  client_socket :: "nat option"
  socks :: "nat \<Rightarrow> conn"

definition sock_shutdown :: "conn \<Rightarrow> exn + conn" where
  "sock_shutdown c =
     (case c of
        Connected \<Rightarrow> Inr ShutRDWR
      | ShutRDWR \<Rightarrow> Inr ShutRDWR
      | Broken \<Rightarrow> Inl OSError
      | Closed \<Rightarrow> Inl OSError)"

definition sock_close :: "conn \<Rightarrow> exn option \<times> conn" where
  "sock_close c = (if c = Broken then (Some OSError, Closed) else (None, Closed))"

definition start :: "lifecycle \<Rightarrow> lifecycle" where
  "start self =
     (if server_thread self = Alive then self
      else self\<lparr>should_run := True, server_thread := Alive\<rparr>)"

text \<open>
  \<^verbatim>\<open>stop\<close>: clear the event and, if there is a client socket, shut it down and close
  it, passing over \<^verbatim>\<open>OSError\<close> each time, and forget it. Nothing in it reads or waits
  for \<^verbatim>\<open>_server_thread\<close>.
\<close>

definition stop :: "lifecycle \<Rightarrow> exn + lifecycle" where
  "stop self =
     (let self1 = self\<lparr>should_run := False\<rparr> in
      case client_socket self1 of
        None \<Rightarrow> Inr self1
      | Some h \<Rightarrow>
          (case (case sock_shutdown (socks self1 h) of
                   Inl e \<Rightarrow> (if e = OSError then Inr (socks self1 h) else Inl e)
                 | Inr c \<Rightarrow> Inr c) of
             Inl e \<Rightarrow> Inl e
           | Inr c1 \<Rightarrow>
               (case sock_close c1 of
                  (raised, c2) \<Rightarrow>
                    (let self2 = self1\<lparr>socks := (socks self1)(h := c2)\<rparr> in
                     case raised of
                       None \<Rightarrow> Inr (self2\<lparr>client_socket := None\<rparr>)
                     | Some e \<Rightarrow>
                         (if e = OSError then Inr (self2\<lparr>client_socket := None\<rparr>)
                          else Inl e)))))"

section \<open>Streams and runs used in the statements\<close>

text \<open>
  The bytes a socket delivers when no read fails: the chunks end to end, up to the close
  of the peer. A stream "consisting of" some bytes is a socket with these bytes as its
  \<open>stream_of\<close>, however they are cut into chunks.
\<close>

fun stream_of :: "socket \<Rightarrow> bytes option" where
  "stream_of [] = Some []"
| "stream_of (Chunk b bs # s) = map_option ((@) (b # bs)) (stream_of s)"
| "stream_of (RecvTimeout # s) = None"
| "stream_of (RecvOSError # s) = None"

text \<open>
  The ends of successive iterations of the frame loop that receive a frame: each frame
  with the clock reading \<open>now\<close> taken after its payload was read.
\<close>

fun deliver_all :: "session \<Rightarrow> frame list \<Rightarrow> exn + session" where
  "deliver_all ss [] = Inr ss"
| "deliver_all ss ((frame_data, now) # fs) =
     (case deliver ss frame_data now of
        Inl e \<Rightarrow> Inl e
      | Inr ss' \<Rightarrow> deliver_all ss' fs)"

text \<open>
  The client's side of the frame stream, following the specification's words
  "repeated: 4-byte length \<open>L\<close>, \<open>L\<close> bytes": the payloads written one after another.
\<close>

fun frames_stream :: "bytes list \<Rightarrow> bytes" where
  "frames_stream [] = []"
| "frames_stream (p # ps) = pack_be32 (length p) @ p @ frames_stream ps"

section \<open>The latest-frame buffer\<close>

lemma drain_empties: "drain q = Inr (q\<lparr>items := []\<rparr>)"
proof (induction q rule: drain.induct)
  case (1 q)
  show ?case
  proof (cases "items q")
    case Nil
    then show ?thesis
      by (subst drain.simps) (simp add: empty_q_def)
  next
    case (Cons x xs)
    then have "drain q = drain (q\<lparr>items := xs\<rparr>)"
      by (subst drain.simps) (simp add: empty_q_def get_nowait_def)
    also have "\<dots> = Inr (q\<lparr>items := xs, items := []\<rparr>)"
      using "1.IH" [of "(x, q\<lparr>items := xs\<rparr>)" x "q\<lparr>items := xs\<rparr>"] Cons
      by (simp add: empty_q_def get_nowait_def)
    finally show ?thesis by simp
  qed
qed

lemma push_frame_eq:
  "push_frame self d t =
     Inr (self\<lparr>frame_queue := (frame_queue self)\<lparr>items := [(d, t)]\<rparr>,
               stats := (stats self)\<lparr>last_updated := t\<rparr>\<rparr>)"
  by (auto simp: push_frame_def drain_empties put_nowait_def)

text \<open>
  Claim C3. Whatever the buffer holds, pushing frame A and then frame B succeeds both
  times (no capacity error comes out of a push), each push leaves exactly the frame just
  pushed in the buffer, the next pop returns B and the pop after that reports empty.
\<close>

theorem latest_wins:
  "\<exists>s1 s2 q1. push_frame self a ta = Inr s1 \<and> items (frame_queue s1) = [(a, ta)]
      \<and> push_frame s1 b tb = Inr s2 \<and> items (frame_queue s2) = [(b, tb)]
      \<and> get_nowait (frame_queue s2) = Inr ((b, tb), q1)
      \<and> get_nowait q1 = Inl QueueEmpty"
  by (simp add: push_frame_eq get_nowait_def)

section \<open>Totality and frame of \<^verbatim>\<open>_push_frame\<close>\<close>

lemma drain_env_returns: "\<exists>q' sch'. drain_env sch q = (Inr q', sch')"
proof (induction sch q rule: drain_env.induct)
  case (1 sch q)
  obtain q1 sch1 where i1: "interfere sch q = (q1, sch1)"
    by (cases "interfere sch q")
  obtain q2 sch2 where i2: "interfere sch1 q1 = (q2, sch2)"
    by (cases "interfere sch1 q1")
  show ?case
  proof (cases "empty_q q1")
    case True
    with i1 show ?thesis
      by (subst drain_env.simps) simp
  next
    case False
    show ?thesis
    proof (cases "get_nowait q2")
      case (Inl e)
      then have "e = QueueEmpty"
        by (auto simp: get_nowait_def split: list.splits)
      with False i1 i2 Inl show ?thesis
        by (subst drain_env.simps) simp
    next
      case (Inr r)
      obtain x q3 where r: "r = (x, q3)" by (cases r)
      from "1.IH" [OF i1 [symmetric] False i2 [symmetric] Inr [unfolded r] refl]
      obtain q' sch' where "drain_env sch2 q3 = (Inr q', sch')" by blast
      with False i1 i2 Inr r show ?thesis
        by (subst drain_env.simps) simp
    qed
  qed
qed

lemma drain_env_Nil: "drain_env [] q = (drain q, [])"
proof (induction q rule: drain.induct)
  case (1 q)
  show ?case
  proof (cases "items q")
    case Nil
    then show ?thesis
      by (subst drain_env.simps, subst drain.simps) (simp add: empty_q_def)
  next
    case (Cons x xs)
    with "1.IH" [of "(x, q\<lparr>items := xs\<rparr>)" x "q\<lparr>items := xs\<rparr>"] show ?thesis
      by (subst drain_env.simps, subst drain.simps)
         (simp add: empty_q_def get_nowait_def)
  qed
qed

lemma push_frame_env_Nil: "push_frame_env [] self d t = push_frame self d t"
  by (simp add: push_frame_env_def push_frame_def drain_env_Nil split: sum.splits)

text \<open>
  Claim C10. Whatever the other threads do to the queue in between, \<^verbatim>\<open>_push_frame\<close>
  returns normally (\<^verbatim>\<open>queue.Empty\<close> while draining and \<^verbatim>\<open>queue.Full\<close> on insertion are
  both caught), sets \<open>last_updated\<close> to the given timestamp and leaves every other field of
  the stats record and of the server, the queue apart, as it was. The last conjunct is a
  run in which the new frame is not enqueued, because another thread filled the one-slot
  queue just before \<^verbatim>\<open>put_nowait\<close>: \<open>last_updated\<close> is set all the same.
\<close>

theorem push_frame_total_frame:
  "(\<exists>s'. push_frame_env sch self frame_data timestamp = Inr s'
       \<and> stats s' = (stats self)\<lparr>last_updated := timestamp\<rparr>
       \<and> last_updated (stats s') = timestamp
       \<and> fps (stats s') = fps (stats self)
       \<and> latency_ms (stats s') = latency_ms (stats self)
       \<and> camera_id (stats s') = camera_id (stats self)
       \<and> s'\<lparr>frame_queue := frame_queue self\<rparr> = self\<lparr>stats := stats s'\<rparr>)
   \<and> (\<exists>s'. push_frame_env [[], [OtherPut ([1], 7)]]
             \<lparr>host = h, port = p, frame_queue = Queue 1, stats = st, server_camera_id = c\<rparr>
             [2] 9 = Inr s'
        \<and> items (frame_queue s') = [([1], 7)]
        \<and> last_updated (stats s') = 9)"
proof (intro conjI)
  obtain q sch1 where d: "drain_env sch (frame_queue self) = (Inr q, sch1)"
    using drain_env_returns by blast
  obtain q1 sch2 where i: "interfere sch1 q = (q1, sch2)"
    by (cases "interfere sch1 q")
  show "\<exists>s'. push_frame_env sch self frame_data timestamp = Inr s'
       \<and> stats s' = (stats self)\<lparr>last_updated := timestamp\<rparr>
       \<and> last_updated (stats s') = timestamp
       \<and> fps (stats s') = fps (stats self)
       \<and> latency_ms (stats s') = latency_ms (stats self)
       \<and> camera_id (stats s') = camera_id (stats self)
       \<and> s'\<lparr>frame_queue := frame_queue self\<rparr> = self\<lparr>stats := stats s'\<rparr>"
    using d i by (simp add: push_frame_env_def put_nowait_def)
next
  have "drain_env [[], [OtherPut ([1], 7)]] (Queue 1) = (Inr (Queue 1), [[OtherPut ([1], 7)]])"
    by (subst drain_env.simps) (simp add: Queue_def empty_q_def)
  then show "\<exists>s'. push_frame_env [[], [OtherPut ([1], 7)]]
             \<lparr>host = h, port = p, frame_queue = Queue 1, stats = st, server_camera_id = c\<rparr>
             [2] 9 = Inr s'
        \<and> items (frame_queue s') = [([1], 7)]
        \<and> last_updated (stats s') = 9"
    by (simp add: push_frame_env_def put_nowait_def Queue_def)
qed

section \<open>Stopping an endpoint\<close>

text \<open>
  Claim C9, refuted as stated. An endpoint has been started, its thread is alive and
  serves a connected client. \<^verbatim>\<open>stop\<close> returns with the flag cleared and the client
  socket closed, and the thread is still alive: \<^verbatim>\<open>stop\<close> has not waited for the accept
  loop to exit.
\<close>

theorem stop_returns_before_thread_exits:
  "\<exists>s'. stop ((start \<lparr>should_run = False, server_thread = NoThread, client_socket = None,
                       socks = (\<lambda>h. Connected)\<rparr>)\<lparr>client_socket := Some 0\<rparr>) = Inr s'
      \<and> \<not> should_run s' \<and> socks s' 0 = Closed \<and> server_thread s' = Alive"
  by (simp add: stop_def start_def sock_shutdown_def sock_close_def)

text \<open>
  Claim C9, amended. \<^verbatim>\<open>stop\<close> always returns; it clears the flag, closes the active
  client socket, if there is one, whatever state that socket is in, forgets it and leaves
  every other socket alone; it returns at once, the server thread being as it was (the
  accept loop leaves on its own, the next time it tests the flag); on an endpoint that is
  already stopped it changes nothing, and a second \<^verbatim>\<open>stop\<close> changes nothing more.
\<close>

theorem stop_effect:
  "\<exists>s'. stop self = Inr s'
      \<and> \<not> should_run s' \<and> client_socket s' = None
      \<and> server_thread s' = server_thread self
      \<and> (\<forall>h. client_socket self = Some h \<longrightarrow> socks s' h = Closed)
      \<and> (\<forall>h. client_socket self \<noteq> Some h \<longrightarrow> socks s' h = socks self h)
      \<and> (\<not> should_run self \<longrightarrow> client_socket self = None \<longrightarrow> s' = self)
      \<and> stop s' = Inr s'"
proof (cases "client_socket self")
  case None
  then show ?thesis
    by (simp add: stop_def)
next
  case (Some h)
  then show ?thesis
    by (cases "socks self h")
       (simp_all add: stop_def sock_shutdown_def sock_close_def)
qed

theorem stop_effect_witness:
  "(\<exists>s'. stop \<lparr>should_run = True, server_thread = Alive, client_socket = Some 3,
                socks = (\<lambda>h. if h = 3 then Broken else Connected)\<rparr> = Inr s'
       \<and> socks s' 3 = Closed \<and> socks s' 4 = Connected \<and> server_thread s' = Alive
       \<and> \<not> should_run s' \<and> client_socket s' = None)
   \<and> stop \<lparr>should_run = False, server_thread = Exited, client_socket = None,
             socks = (\<lambda>h. Closed)\<rparr>
       = Inr \<lparr>should_run = False, server_thread = Exited, client_socket = None,
              socks = (\<lambda>h. Closed)\<rparr>"
  using stop_effect [of "\<lparr>should_run = True, server_thread = Alive, client_socket = Some 3,
                socks = (\<lambda>h. if h = 3 then Broken else Connected)\<rparr>"]
        stop_effect [of "\<lparr>should_run = False, server_thread = Exited, client_socket = None,
             socks = (\<lambda>h. Closed)\<rparr>"]
  by (simp add: stop_def sock_shutdown_def sock_close_def)

section \<open>Adding a camera under a name in use\<close>




section \<open>Where the latency is recorded\<close>

text \<open>
  Claim C6, refuted as stated. The stats of a server show a latency of 5 ms, from a
  frame displayed earlier. A frame is pushed at time 10, so with capture timestamp 10:
  the push succeeds and the latency is still 5, not the \<open>max ((10 - 10) * 1000) 0 = 0\<close>
  that a recording at push time would give.
\<close>

theorem push_does_not_record_latency:
  "\<exists>ss'. deliver \<lparr>this = \<lparr>host = ''0.0.0.0'', port = 5000, frame_queue = Queue 1,
                             stats = \<lparr>fps = 0, latency_ms = 5, last_updated = 0,
                                      camera_id = JStr ''Camera 1''\<rparr>,
                             server_camera_id = JStr ''Camera 1''\<rparr>,
                     frame_count = 0, window_start = 9.5\<rparr> [65] 10 = Inr ss'
      \<and> items (frame_queue (this ss')) = [([65], 10)]
      \<and> latency_ms (stats (this ss')) = 5
      \<and> latency_ms (stats (this ss')) \<noteq> max ((10 - 10) * 1000) 0"
  by (simp add: deliver_def push_frame_eq Queue_def)

text \<open>
  Claim C6, amended. A push, with the statistics that follow it in the frame loop, leaves
  the latency as it was. The latency is recorded when a frame is displayed: if the image
  is rendered and there is an active camera in the registry, \<^verbatim>\<open>_display_frame\<close> sets
  that camera's latency to \<open>(now - timestamp) * 1000\<close>, or to 0 if that is negative,
  \<open>now\<close> being the time of display and \<open>timestamp\<close> the time of the push; so a recorded
  latency is never negative.
\<close>

theorem latency_recorded_at_display:
  "(\<exists>ss'. deliver ss frame_data t = Inr ss'
       \<and> latency_ms (stats (this ss')) = latency_ms (stats (this ss)))
   \<and> (renders frame_data \<longrightarrow> active_in app = Some cid \<longrightarrow>
        (\<exists>cam cam'. cameras app cid = Some cam
           \<and> cameras (display_frame renders now app frame_data timestamp) cid = Some cam'
           \<and> latency_ms (stats (server cam')) = max ((now - timestamp) * 1000) 0
           \<and> 0 \<le> latency_ms (stats (server cam'))
           \<and> cam' = cam\<lparr>server := (server cam)\<lparr>stats := (stats (server cam))
                  \<lparr>latency_ms := max ((now - timestamp) * 1000) 0\<rparr>\<rparr>\<rparr>))"
proof (intro conjI impI)
  show "\<exists>ss'. deliver ss frame_data t = Inr ss'
       \<and> latency_ms (stats (this ss')) = latency_ms (stats (this ss))"
    by (simp add: deliver_def push_frame_eq Let_def)
next
  assume r: "renders frame_data" and a: "active_in app = Some cid"
  from a obtain cam where "cameras app cid = Some cam"
    by (auto simp: active_in_def split: option.splits if_splits)
  with r a show "\<exists>cam cam'. cameras app cid = Some cam
           \<and> cameras (display_frame renders now app frame_data timestamp) cid = Some cam'
           \<and> latency_ms (stats (server cam')) = max ((now - timestamp) * 1000) 0
           \<and> 0 \<le> latency_ms (stats (server cam'))
           \<and> cam' = cam\<lparr>server := (server cam)\<lparr>stats := (stats (server cam))
                  \<lparr>latency_ms := max ((now - timestamp) * 1000) 0\<rparr>\<rparr>\<rparr>"
    by (simp add: display_frame_def Let_def)
qed

theorem latency_recorded_at_display_witness:
  "active_in (ViewerApp_init 0 ''0.0.0.0'' 5000) = Some ''Camera 1''
   \<and> (\<exists>cam'. cameras (display_frame (\<lambda>d. True) 3 (ViewerApp_init 0 ''0.0.0.0'' 5000) [65] 2)
                 ''Camera 1'' = Some cam'
         \<and> latency_ms (stats (server cam')) = 1000)"
  using latency_recorded_at_display
          [where renders = "\<lambda>d. True" and frame_data = "[65]"
             and app = "ViewerApp_init 0 ''0.0.0.0'' 5000" and cid = "''Camera 1''"
             and now = 3 and timestamp = 2]
  by (simp add: active_in_def ViewerApp_init_def ViewerApp_add_camera_def)

section \<open>Reading from a stream\<close>

lemma stream_of_Nil: "stream_of s = Some [] \<Longrightarrow> s = []"
  by (induction s rule: stream_of.induct) auto

lemma recv_into_stream:
  "stream_of s = Some bs \<Longrightarrow> bs \<noteq> [] \<Longrightarrow> 0 < n \<Longrightarrow>
     \<exists>chunk rest s'. recv_into s n = (Inr chunk, s') \<and> chunk \<noteq> [] \<and> length chunk \<le> n
        \<and> bs = chunk @ rest \<and> stream_of s' = Some rest"
proof (induction s rule: stream_of.induct)
  case (2 b cs s)
  then obtain tl where tl: "stream_of s = Some tl" "bs = (b # cs) @ tl"
    by auto
  show ?case
  proof (cases "drop n (b # cs)")
    case Nil
    with 2 tl show ?thesis
      by (cases n) auto
  next
    case (Cons c ds)
    then have "b # cs = take n (b # cs) @ c # ds"
      by (metis append_take_drop_id)
    with 2 tl Cons show ?thesis
      by (cases n) (auto simp: min_def)
  qed
qed auto

lemma recvall_loop_stream:
  "stream_of s = Some (want @ rest) \<Longrightarrow> length data + length want = len \<Longrightarrow>
     \<exists>s'. recvall_loop s len data = (Inr (Some (data @ want)), s') \<and> stream_of s' = Some rest"
proof (induction "length want" arbitrary: s want data rule: less_induct)
  case less
  show ?case
  proof (cases "want = []")
    case True
    with less.prems show ?thesis
      by (subst recvall_loop.simps) simp
  next
    case False
    with less.prems have lt: "length data < len" and pos: "0 < len - length data"
      by auto
    from recv_into_stream [OF less.prems(1) _ pos] False
    obtain chunk tl s1 where rc: "recv_into s (len - length data) = (Inr chunk, s1)"
      and ne: "chunk \<noteq> []" and le: "length chunk \<le> len - length data"
      and split: "want @ rest = chunk @ tl" and st: "stream_of s1 = Some tl"
      by auto
    from le less.prems(2) have "length chunk \<le> length want"
      by simp
    with split obtain want' where w: "want = chunk @ want'"
      by (metis append_eq_append_conv_if append_take_drop_id)
    with split have tl: "tl = want' @ rest"
      by simp
    have "length want' < length want"
      using w ne by simp
    from less.hyps [OF this st [unfolded tl], of "data @ chunk"] less.prems(2) w
    obtain s' where "recvall_loop s1 len (data @ chunk) = (Inr (Some ((data @ chunk) @ want')), s')"
      and "stream_of s' = Some rest"
      by auto
    with lt rc ne w show ?thesis
      by (subst recvall_loop.simps) simp
  qed
qed

lemma recvall_stream:
  "stream_of s = Some (want @ rest) \<Longrightarrow> length want = len \<Longrightarrow>
     \<exists>s'. recvall s len = (Inr (Some want), s') \<and> stream_of s' = Some rest"
  using recvall_loop_stream [of s want rest "[]" len] by (simp add: recvall_def)

lemma recvall_closed: "0 < len \<Longrightarrow> recvall [] len = (Inr None, [])"
  unfolding recvall_def by (subst recvall_loop.simps) simp

lemma unat_byte: "unat (of_nat n :: byte) = n mod 256"
  by (simp add: unat_of_nat take_bit_eq_mod)

lemma unpack_pack:
  assumes "L < 2 ^ 32"
  shows "unpack_be32 (pack_be32 L) = Inr L"
proof -
  define q1 where "q1 = L div 256"
  define q2 where "q2 = q1 div 256"
  define q3 where "q3 = q2 div 256"
  have d8: "L div 256 = q1"
    by (simp add: q1_def)
  have d16: "L div 65536 = q2"
    by (simp add: q1_def q2_def div_mult2_eq [symmetric])
  have d24: "L div 16777216 = q3"
    by (simp add: q1_def q2_def q3_def div_mult2_eq [symmetric])
  have top: "q3 < 256"
    using assms by (simp add: q1_def q2_def q3_def div_mult2_eq [symmetric])
  have e1: "L = q1 * 256 + L mod 256"
    by (simp add: q1_def)
  have e2: "q1 = q2 * 256 + q1 mod 256"
    by (simp add: q2_def)
  have e3: "q2 = q3 * 256 + q2 mod 256"
    by (simp add: q3_def)
  have "q3 * 2 ^ 24 + q2 mod 256 * 2 ^ 16 + q1 mod 256 * 2 ^ 8 + L mod 256
      = ((q3 * 256 + q2 mod 256) * 256 + q1 mod 256) * 256 + L mod 256"
    by (simp add: algebra_simps)
  also have "\<dots> = L"
    using e1 e2 e3 by simp
  finally show ?thesis
    using top by (simp add: unpack_be32_def pack_be32_def unat_byte d8 d16 d24)
qed

lemma length_pack_be32: "length (pack_be32 L) = 4"
  by (simp add: pack_be32_def)

lemma deliver_eq:
  "deliver ss frame_data now =
     Inr (if now - window_start ss \<ge> 1
          then \<lparr>this = (this ss)\<lparr>frame_queue := (frame_queue (this ss))\<lparr>items := [(frame_data, now)]\<rparr>,
                                 stats := (stats (this ss))\<lparr>last_updated := now,
                                    fps := of_int (frame_count ss + 1) / (now - window_start ss)\<rparr>\<rparr>,
                frame_count = 0, window_start = now\<rparr>
          else \<lparr>this = (this ss)\<lparr>frame_queue := (frame_queue (this ss))\<lparr>items := [(frame_data, now)]\<rparr>,
                                 stats := (stats (this ss))\<lparr>last_updated := now\<rparr>\<rparr>,
                frame_count = frame_count ss + 1, window_start = window_start ss\<rparr>)"
  by (simp add: deliver_def push_frame_eq Let_def)

section \<open>One iteration of the frame loop on a stream\<close>

lemma frame_step_stream:
  assumes st: "stream_of (sock w) = Some (pack_be32 L @ payload @ rest)"
    and L: "0 < L" "L \<le> 5242880" and len: "length payload = L"
  shows "\<exists>ss' s'. deliver ss payload (clock w (ticks w)) = Inr ss'
           \<and> frame_step ss w = (Inr (Continue ss'), w\<lparr>sock := s', ticks := Suc (ticks w)\<rparr>)
           \<and> stream_of s' = Some rest"
proof -
  from recvall_stream [OF st length_pack_be32]
  obtain s1 where r1: "recvall (sock w) 4 = (Inr (Some (pack_be32 L)), s1)"
    and s1: "stream_of s1 = Some (payload @ rest)"
    by blast
  from recvall_stream [OF s1 len]
  obtain s2 where r2: "recvall s1 L = (Inr (Some payload), s2)"
    and s2: "stream_of s2 = Some rest"
    by blast
  have u: "unpack_be32 (pack_be32 L) = Inr L"
    using L by (intro unpack_pack) simp
  have ne: "pack_be32 L \<noteq> []" "payload \<noteq> []"
    using L len by (auto simp: pack_be32_def)
  obtain ss' where d: "deliver ss payload (clock w (ticks w)) = Inr ss'"
    by (simp add: deliver_eq)
  show ?thesis
    using r1 r2 u ne d s2 L
    by (intro exI [of _ ss'] exI [of _ s2]) (simp add: frame_step_def time_now_def)
qed

lemma frame_step_out_of_range:
  assumes st: "stream_of (sock w) = Some (pack_be32 L @ rest)"
    and L: "L = 0 \<or> 5242880 < L" "L < 2 ^ 32"
  shows "\<exists>s'. frame_step ss w = (Inr (Continue ss), w\<lparr>sock := s'\<rparr>) \<and> stream_of s' = Some rest"
proof -
  from recvall_stream [OF st length_pack_be32]
  obtain s1 where r1: "recvall (sock w) 4 = (Inr (Some (pack_be32 L)), s1)"
    and s1: "stream_of s1 = Some rest"
    by blast
  have u: "unpack_be32 (pack_be32 L) = Inr L"
    using L by (intro unpack_pack)
  have ne: "pack_be32 L \<noteq> []"
    by (simp add: pack_be32_def)
  show ?thesis
    using r1 u ne s1 L
    by (intro exI [of _ s1]) (auto simp: frame_step_def)
qed

lemma frame_try_Inr: "frame_step ss w = (Inr c, w') \<Longrightarrow> frame_try ss w = (Inr c, w')"
  by (simp add: frame_try_def)

lemma frame_loop_continue:
  "flag w (checks w) \<Longrightarrow>
   frame_try ss (w\<lparr>checks := Suc (checks w)\<rparr>) = (Inr (Continue ss'), w') \<Longrightarrow>
   frame_loop ss w = frame_loop ss' w'"
  by (subst frame_loop.simps) (simp add: is_set_def)

lemma frame_loop_closed:
  "sock w = [] \<Longrightarrow> \<exists>w'. frame_loop ss w = (Inr ss, w') \<and> sock w' = []"
  by (subst frame_loop.simps)
     (simp add: is_set_def frame_try_def frame_step_def recvall_closed)

section \<open>A frame in range\<close>

text \<open>
  Claim C4. Let \<open>0 < L \<le> 5242880\<close> (the upper end included) and let the stream start
  with the 4-byte big-endian encoding of \<open>L\<close> followed by \<open>L\<close> payload bytes, cut into
  chunks in any way. Then one iteration of the frame loop delivers a frame whose payload
  is exactly these \<open>L\<close> bytes, stamped with the clock reading of the iteration, and
  leaves the stream at what follows the payload. If nothing follows and the endpoint is
  running, the frame loop as a whole returns with that frame in the buffer.
\<close>

theorem frame_roundtrip:
  assumes "0 < L" and "L \<le> 5242880" and "length payload = L"
    and "stream_of (sock w) = Some (pack_be32 L @ payload @ rest)"
  shows "(\<exists>ss' s'. frame_try ss w
                     = (Inr (Continue ss'), w\<lparr>sock := s', ticks := Suc (ticks w)\<rparr>)
            \<and> stream_of s' = Some rest
            \<and> items (frame_queue (this ss')) = [(payload, clock w (ticks w))])
       \<and> (rest = [] \<longrightarrow> flag w (checks w) \<longrightarrow>
            (\<exists>ss' w'. frame_loop ss w = (Inr ss', w')
               \<and> items (frame_queue (this ss')) = [(payload, clock w (ticks w))]
               \<and> sock w' = []))"
proof (intro conjI impI)
  from frame_step_stream [OF assms(4) assms(1) assms(2) assms(3), of ss]
  obtain ss' s' where d: "deliver ss payload (clock w (ticks w)) = Inr ss'"
    and f: "frame_step ss w = (Inr (Continue ss'), w\<lparr>sock := s', ticks := Suc (ticks w)\<rparr>)"
    and s: "stream_of s' = Some rest"
    by blast
  from d have "items (frame_queue (this ss')) = [(payload, clock w (ticks w))]"
    by (auto simp: deliver_eq split: if_splits)
  with f s show "\<exists>ss' s'. frame_try ss w
                     = (Inr (Continue ss'), w\<lparr>sock := s', ticks := Suc (ticks w)\<rparr>)
            \<and> stream_of s' = Some rest
            \<and> items (frame_queue (this ss')) = [(payload, clock w (ticks w))]"
    by (intro exI [of _ ss'] exI [of _ s']) (simp add: frame_try_Inr)
next
  assume rest: "rest = []" and run: "flag w (checks w)"
  let ?w1 = "w\<lparr>checks := Suc (checks w)\<rparr>"
  have "stream_of (sock ?w1) = Some (pack_be32 L @ payload @ rest)"
    using assms(4) by simp
  from frame_step_stream [OF this assms(1) assms(2) assms(3), of ss]
  obtain ss' s' where d: "deliver ss payload (clock w (ticks w)) = Inr ss'"
    and f: "frame_step ss ?w1 = (Inr (Continue ss'), ?w1\<lparr>sock := s', ticks := Suc (ticks w)\<rparr>)"
    and s: "stream_of s' = Some rest"
    by auto
  from d have q: "items (frame_queue (this ss')) = [(payload, clock w (ticks w))]"
    by (auto simp: deliver_eq split: if_splits)
  from s rest have "s' = []"
    by (simp add: stream_of_Nil)
  then obtain w' where "frame_loop ss' (?w1\<lparr>sock := s', ticks := Suc (ticks w)\<rparr>) = (Inr ss', w')"
    and "sock w' = []"
    using frame_loop_closed [of "?w1\<lparr>sock := s', ticks := Suc (ticks w)\<rparr>" ss'] by auto
  with frame_loop_continue [OF run frame_try_Inr [OF f]] q
  show "\<exists>ss' w'. frame_loop ss w = (Inr ss', w')
               \<and> items (frame_queue (this ss')) = [(payload, clock w (ticks w))]
               \<and> sock w' = []"
    by auto
qed

theorem frame_roundtrip_witness:
  "(0::nat) < 5242880 \<and> (5242880::nat) \<le> 5242880
   \<and> length (65 # replicate 5242879 (66::byte)) = 5242880
   \<and> stream_of [Chunk 0 [80, 0], Chunk 0 [65], Chunk 66 (replicate 5242878 66)]
       = Some (pack_be32 5242880 @ (65 # replicate 5242879 66) @ [])
   \<and> (\<exists>ss' w'. frame_loop
         \<lparr>this = \<lparr>host = ''0.0.0.0'', port = 5000, frame_queue = Queue 1,
                  stats = \<lparr>fps = 0, latency_ms = 0, last_updated = 0,
                           camera_id = JStr ''Camera 1''\<rparr>,
                  server_camera_id = JStr ''Camera 1''\<rparr>,
          frame_count = 0, window_start = 0\<rparr>
         \<lparr>sock = [Chunk 0 [80, 0], Chunk 0 [65], Chunk 66 (replicate 5242878 66)],
          clock = (\<lambda>k. 7), ticks = 0, flag = (\<lambda>k. True), checks = 0\<rparr> = (Inr ss', w')
        \<and> items (frame_queue (this ss')) = [(65 # replicate 5242879 66, 7)])"
proof -
  have r: "replicate 5242879 (66::byte) = 66 # replicate 5242878 66"
    using replicate_Suc [of 5242878 "66::byte"] by simp
  have p: "pack_be32 5242880 = [0, 80, 0, 0]"
    by (simp add: pack_be32_def)
  show ?thesis
    using frame_roundtrip [where L = 5242880 and payload = "65 # replicate 5242879 66"
        and rest = "[]" and ss = "\<lparr>this = \<lparr>host = ''0.0.0.0'', port = 5000, frame_queue = Queue 1,
                  stats = \<lparr>fps = 0, latency_ms = 0, last_updated = 0,
                           camera_id = JStr ''Camera 1''\<rparr>,
                  server_camera_id = JStr ''Camera 1''\<rparr>,
          frame_count = 0, window_start = 0\<rparr>"
        and w = "\<lparr>sock = [Chunk 0 [80, 0], Chunk 0 [65], Chunk 66 (replicate 5242878 66)],
          clock = (\<lambda>k. 7), ticks = 0, flag = (\<lambda>k. True), checks = 0\<rparr>"]
    by (simp add: p r) blast
qed

section \<open>A frame length out of range\<close>

text \<open>
  Claim C1, refuted for a length above the bound. Let the stream start with the header
  of a length \<open>L > 5242880\<close>. The iteration that reads this header neither ends the
  session nor takes anything more from the stream: it is \<^verbatim>\<open>continue\<close>, with the stream
  left just after the four header bytes, at the first byte of the declared payload. So
  the next iteration reads the first payload bytes as a header: if the payload begins
  with \<open>00 00 00 01 b\<close>, the one-byte frame \<open>b\<close> is delivered to the buffer.
\<close>

theorem oversize_header_not_drained:
  assumes "5242880 < L" and "L < 2 ^ 32"
    and "stream_of (sock w) = Some (pack_be32 L @ rest)"
  shows "(\<exists>s'. frame_try ss w = (Inr (Continue ss), w\<lparr>sock := s'\<rparr>)
            \<and> stream_of s' = Some rest)
       \<and> (rest = pack_be32 1 @ [b] \<longrightarrow> flag w (checks w) \<longrightarrow> flag w (Suc (checks w)) \<longrightarrow>
            (\<exists>ss' w'. frame_loop ss w = (Inr ss', w')
               \<and> items (frame_queue (this ss')) = [([b], clock w (ticks w))]))"
proof (intro conjI impI)
  from frame_step_out_of_range [OF assms(3) _ assms(2), of ss] assms(1)
  show "\<exists>s'. frame_try ss w = (Inr (Continue ss), w\<lparr>sock := s'\<rparr>) \<and> stream_of s' = Some rest"
    by (auto simp: frame_try_Inr)
next
  assume rest: "rest = pack_be32 1 @ [b]"
    and run: "flag w (checks w)" "flag w (Suc (checks w))"
  let ?w1 = "w\<lparr>checks := Suc (checks w)\<rparr>"
  have "stream_of (sock ?w1) = Some (pack_be32 L @ rest)"
    using assms(3) by simp
  from frame_step_out_of_range [OF this _ assms(2), of ss] assms(1)
  obtain s1 where f1: "frame_step ss ?w1 = (Inr (Continue ss), ?w1\<lparr>sock := s1\<rparr>)"
    and s1: "stream_of s1 = Some rest"
    by auto
  let ?w2 = "?w1\<lparr>sock := s1\<rparr>"
  have l1: "frame_loop ss w = frame_loop ss ?w2"
    by (rule frame_loop_continue [OF run(1) frame_try_Inr [OF f1]])
  let ?w3 = "?w2\<lparr>checks := Suc (checks ?w2)\<rparr>"
  have "stream_of (sock ?w3) = Some (pack_be32 1 @ [b] @ [])"
    using s1 rest by simp
  from frame_step_stream [OF this, of ss]
  obtain ss' s2 where d: "deliver ss [b] (clock w (ticks w)) = Inr ss'"
    and f2: "frame_step ss ?w3 = (Inr (Continue ss'), ?w3\<lparr>sock := s2, ticks := Suc (ticks w)\<rparr>)"
    and s2: "stream_of s2 = Some []"
    by auto
  have l2: "frame_loop ss ?w2 = frame_loop ss' (?w3\<lparr>sock := s2, ticks := Suc (ticks w)\<rparr>)"
    using run(2) by (intro frame_loop_continue frame_try_Inr [OF f2]) simp
  from s2 have "s2 = []"
    by (rule stream_of_Nil)
  then obtain w' where "frame_loop ss' (?w3\<lparr>sock := s2, ticks := Suc (ticks w)\<rparr>) = (Inr ss', w')"
    using frame_loop_closed [of "?w3\<lparr>sock := s2, ticks := Suc (ticks w)\<rparr>" ss'] by auto
  moreover from d have "items (frame_queue (this ss')) = [([b], clock w (ticks w))]"
    by (auto simp: deliver_eq split: if_splits)
  ultimately show "\<exists>ss' w'. frame_loop ss w = (Inr ss', w')
               \<and> items (frame_queue (this ss')) = [([b], clock w (ticks w))]"
    using l1 l2 by auto
qed

theorem oversize_header_not_drained_witness:
  "(5242880::nat) < 4294967295 \<and> (4294967295::nat) < 2 ^ 32
   \<and> stream_of [Chunk 255 [255, 255, 255, 0, 0, 0, 1, 88]]
       = Some (pack_be32 4294967295 @ pack_be32 1 @ [88])
   \<and> pack_be32 4294967295 = [255, 255, 255, 255] \<and> pack_be32 1 = [0, 0, 0, 1]
   \<and> (\<exists>ss' w'. frame_loop
         \<lparr>this = \<lparr>host = ''0.0.0.0'', port = 5000, frame_queue = Queue 1,
                  stats = \<lparr>fps = 0, latency_ms = 0, last_updated = 0,
                           camera_id = JStr ''Camera 1''\<rparr>,
                  server_camera_id = JStr ''Camera 1''\<rparr>,
          frame_count = 0, window_start = 0\<rparr>
         \<lparr>sock = [Chunk 255 [255, 255, 255, 0, 0, 0, 1, 88]],
          clock = (\<lambda>k. 7), ticks = 0, flag = (\<lambda>k. True), checks = 0\<rparr> = (Inr ss', w')
        \<and> items (frame_queue (this ss')) = [([88], 7)])"
proof -
  have p: "pack_be32 4294967295 = [255, 255, 255, 255]" "pack_be32 1 = [0, 0, 0, 1]"
    by (simp_all add: pack_be32_def)
  have p1: "pack_be32 (Suc 0) = [0, 0, 0, 1]"
    by (simp add: pack_be32_def)
  show ?thesis
    using oversize_header_not_drained [where L = 4294967295 and b = 88
        and rest = "pack_be32 1 @ [88]"
        and ss = "\<lparr>this = \<lparr>host = ''0.0.0.0'', port = 5000, frame_queue = Queue 1,
                  stats = \<lparr>fps = 0, latency_ms = 0, last_updated = 0,
                           camera_id = JStr ''Camera 1''\<rparr>,
                  server_camera_id = JStr ''Camera 1''\<rparr>,
          frame_count = 0, window_start = 0\<rparr>"
        and w = "\<lparr>sock = [Chunk 255 [255, 255, 255, 0, 0, 0, 1, 88]],
          clock = (\<lambda>k. 7), ticks = 0, flag = (\<lambda>k. True), checks = 0\<rparr>"]
    by (simp add: p p1)
qed

section \<open>The handshake on a stream\<close>

lemma handshake_try_stream:
  assumes "stream_of s = Some (pack_be32 n @ metadata_bytes @ rest)"
    and "0 < n" and "n < 1024" and "length metadata_bytes = n"
  shows "\<exists>s2. handshake_try loads self s = (parse_metadata loads self metadata_bytes, s2)
           \<and> stream_of s2 = Some rest"
proof -
  from recvall_stream [OF assms(1) length_pack_be32]
  obtain s1 where r1: "recvall s 4 = (Inr (Some (pack_be32 n)), s1)"
    and s1: "stream_of s1 = Some (metadata_bytes @ rest)"
    by blast
  from recvall_stream [OF s1 assms(4)]
  obtain s2 where r2: "recvall s1 n = (Inr (Some metadata_bytes), s2)"
    and s2: "stream_of s2 = Some rest"
    by blast
  have u: "unpack_be32 (pack_be32 n) = Inr n"
    using assms(3) by (intro unpack_pack) simp
  have ne: "pack_be32 n \<noteq> []" "metadata_bytes \<noteq> []"
    using assms(2,4) by (auto simp: pack_be32_def)
  show ?thesis
    using r1 r2 u ne s2 assms(2,3)
    by (intro exI [of _ s2]) (simp add: handshake_try_def)
qed

lemma parse_metadata_cases:
  "parse_metadata loads self metadata_bytes =
     (case loads metadata_bytes of
        Inl e \<Rightarrow> (if e = JSONDecodeError \<or> e = UnicodeDecodeError then Inr self else Inl e)
      | Inr (JObj kvs) \<Rightarrow>
          (case map_of kvs ''camera_id'' of
             Some v \<Rightarrow> Inr (self\<lparr>server_camera_id := v, stats := (stats self)\<lparr>camera_id := v\<rparr>\<rparr>)
           | None \<Rightarrow> Inr (self\<lparr>stats := (stats self)\<lparr>camera_id := server_camera_id self\<rparr>\<rparr>))
      | Inr j \<Rightarrow> Inl AttributeError)"
  by (simp add: parse_metadata_def dict_get_def split: sum.splits json.splits option.splits)

lemma parse_metadata_frame_queue:
  "parse_metadata loads self metadata_bytes = Inr self' \<Longrightarrow> frame_queue self' = frame_queue self"
  by (auto simp: parse_metadata_cases split: sum.splits json.splits option.splits if_splits)

lemma handshake_stream:
  assumes "stream_of s = Some (pack_be32 n @ metadata_bytes @ rest)"
    and "0 < n" and "n < 1024" and "length metadata_bytes = n"
  shows "\<exists>s2. handshake loads self s
              = (case parse_metadata loads self metadata_bytes of
                   Inl e \<Rightarrow> self | Inr self' \<Rightarrow> self', s2)
           \<and> stream_of s2 = Some rest"
proof -
  from handshake_try_stream [OF assms, of loads self]
  obtain s2 where "handshake_try loads self s = (parse_metadata loads self metadata_bytes, s2)"
    and "stream_of s2 = Some rest"
    by blast
  then show ?thesis
    by (intro exI [of _ s2]) (simp add: handshake_def split: sum.splits)
qed

section \<open>A client that sends no handshake\<close>

text \<open>
  Claim C2, refuted. A client sends no handshake and starts with a frame of \<open>L\<close> bytes,
  \<open>0 < L < 1024\<close>, and nothing more. The handshake code reads the frame header as the
  metadata length and the \<open>L\<close> payload bytes as the metadata, so the frame loop finds
  the stream used up and the session ends with nothing pushed: the frame queue is the
  one the session started with, and if that was empty a poll of the viewer finds no
  frame (\<^verbatim>\<open>queue.Empty\<close>, the application unchanged). When the payload is not JSON
  (\<open>loads\<close> raises) the server is otherwise unchanged too.
\<close>

theorem no_handshake_frame_consumed:
  assumes "0 < L" and "L < 1024" and "length payload = L"
    and "stream_of (sock w) = Some (pack_be32 L @ payload)"
  shows "\<exists>ss' w'. handle_client loads self w = (Inr ss', w')
           \<and> frame_queue (this ss') = frame_queue self
           \<and> sock w' = []
           \<and> (\<forall>e. loads payload = Inl e \<longrightarrow> this ss' = self)
           \<and> (items (frame_queue self) = [] \<longrightarrow>
                get_nowait (frame_queue (this ss')) = Inl QueueEmpty
                \<and> (\<forall>app cid cam. active_in app = Some cid \<longrightarrow> cameras app cid = Some cam \<longrightarrow>
                      server cam = this ss' \<longrightarrow> poll_frames renders now app = Inr app))"
proof -
  have "stream_of (sock w) = Some (pack_be32 L @ payload @ [])"
    using assms(4) by simp
  from handshake_stream [OF this assms(1) assms(2) assms(3), of loads self]
  obtain s2 where h: "handshake loads self (sock w)
              = (case parse_metadata loads self payload of
                   Inl e \<Rightarrow> self | Inr self' \<Rightarrow> self', s2)"
    and "stream_of s2 = Some []"
    by blast
  then have s2: "s2 = []"
    by (simp add: stream_of_Nil)
  define self' where "self' = (case parse_metadata loads self payload of
                   Inl e \<Rightarrow> self | Inr self' \<Rightarrow> self')"
  define ss where "ss = \<lparr>this = self', frame_count = 0, window_start = clock w (ticks w)\<rparr>"
  have q: "frame_queue self' = frame_queue self"
    unfolding self'_def
    by (auto split: sum.splits dest: parse_metadata_frame_queue)
  have same: "\<forall>e. loads payload = Inl e \<longrightarrow> self' = self"
    unfolding self'_def by (auto simp: parse_metadata_cases)
  obtain w' where l: "frame_loop ss (w\<lparr>ticks := Suc (ticks w), sock := s2\<rparr>) = (Inr ss, w')"
    and w': "sock w' = []"
    using frame_loop_closed [of "w\<lparr>ticks := Suc (ticks w), sock := s2\<rparr>" ss] s2 by auto
  have hc: "handle_client loads self w = (Inr ss, w')"
    using h l by (simp add: handle_client_def time_now_def self'_def ss_def)
  have poll: "items (frame_queue self) = [] \<longrightarrow>
                get_nowait (frame_queue (this ss)) = Inl QueueEmpty
                \<and> (\<forall>app cid cam. active_in app = Some cid \<longrightarrow> cameras app cid = Some cam \<longrightarrow>
                      server cam = this ss \<longrightarrow> poll_frames renders now app = Inr app)"
    using q by (simp add: ss_def get_nowait_def poll_frames_def)
  show ?thesis
    using hc q w' same poll
    by (intro exI [of _ ss] exI [of _ w']) (simp add: ss_def)
qed

theorem no_handshake_frame_consumed_witness:
  "(0::nat) < 5 \<and> (5::nat) < 1024 \<and> length [65, 65, 65, 65, 65 :: byte] = 5
   \<and> stream_of [Chunk 0 [0, 0, 5, 65, 65, 65, 65, 65]] = Some (pack_be32 5 @ [65, 65, 65, 65, 65])
   \<and> pack_be32 5 = [0, 0, 0, 5]
   \<and> (\<exists>ss' w'. handle_client (\<lambda>b. Inl JSONDecodeError)
         \<lparr>host = ''0.0.0.0'', port = 5000, frame_queue = Queue 1,
          stats = \<lparr>fps = 0, latency_ms = 0, last_updated = 0, camera_id = JStr ''Camera 1''\<rparr>,
          server_camera_id = JStr ''Camera 1''\<rparr>
         \<lparr>sock = [Chunk 0 [0, 0, 5, 65, 65, 65, 65, 65]],
          clock = (\<lambda>k. 7), ticks = 0, flag = (\<lambda>k. True), checks = 0\<rparr> = (Inr ss', w')
        \<and> items (frame_queue (this ss')) = []
        \<and> get_nowait (frame_queue (this ss')) = Inl QueueEmpty)
   \<and> poll_frames (\<lambda>d. True) 8 (ViewerApp_init 0 ''0.0.0.0'' 5000)
       = Inr (ViewerApp_init 0 ''0.0.0.0'' 5000)"
proof -
  have p: "pack_be32 5 = [0, 0, 0, 5]"
    by (simp add: pack_be32_def)
  have poll: "poll_frames (\<lambda>d. True) 8 (ViewerApp_init 0 ''0.0.0.0'' 5000)
       = Inr (ViewerApp_init 0 ''0.0.0.0'' 5000)"
    by (simp add: poll_frames_def active_in_def ViewerApp_init_def ViewerApp_add_camera_def
          get_nowait_def Queue_def)
  show ?thesis
    using no_handshake_frame_consumed [where L = 5 and payload = "[65, 65, 65, 65, 65]"
        and loads = "\<lambda>b. Inl JSONDecodeError" and renders = "\<lambda>d. True" and now = 8
        and self = "\<lparr>host = ''0.0.0.0'', port = 5000, frame_queue = Queue 1,
          stats = \<lparr>fps = 0, latency_ms = 0, last_updated = 0, camera_id = JStr ''Camera 1''\<rparr>,
          server_camera_id = JStr ''Camera 1''\<rparr>"
        and w = "\<lparr>sock = [Chunk 0 [0, 0, 5, 65, 65, 65, 65, 65]],
          clock = (\<lambda>k. 7), ticks = 0, flag = (\<lambda>k. True), checks = 0\<rparr>"]
    by (auto simp: p poll Queue_def)
qed

section \<open>The handshake and the camera identity\<close>

text \<open>
  Claim C8. Let the stream start with a metadata length \<open>n\<close> in range, \<open>0 < n < 1024\<close>,
  followed by \<open>n\<close> metadata bytes. Then the handshake takes exactly these bytes and the
  session goes on to the frame loop on what follows them, whatever the metadata are. If
  the metadata decode to a JSON object with a \<open>camera_id\<close> field, the server's identity
  and the identity in its stats both become that value and nothing else changes. If the
  decoding raises (invalid UTF-8, invalid JSON, or anything else), or the value is not
  an object, the server is unchanged. If the object has no \<open>camera_id\<close> field, the
  server's identity is kept and written to the stats, so the server is unchanged when,
  as in every server the registry creates, the two identities agree.
\<close>

theorem handshake_identity:
  assumes "0 < n" and "n < 1024" and "length metadata_bytes = n"
    and "stream_of (sock w) = Some (pack_be32 n @ metadata_bytes @ rest)"
  shows "\<exists>self' s2. handshake loads self (sock w) = (self', s2)
           \<and> stream_of s2 = Some rest
           \<and> handle_client loads self w
               = frame_loop \<lparr>this = self', frame_count = 0, window_start = clock w (ticks w)\<rparr>
                   (w\<lparr>ticks := Suc (ticks w), sock := s2\<rparr>)
           \<and> (\<forall>kvs v. loads metadata_bytes = Inr (JObj kvs) \<longrightarrow>
                 map_of kvs ''camera_id'' = Some v \<longrightarrow>
                 self' = self\<lparr>server_camera_id := v, stats := (stats self)\<lparr>camera_id := v\<rparr>\<rparr>
                 \<and> server_camera_id self' = v \<and> camera_id (stats self') = v)
           \<and> (\<forall>e. loads metadata_bytes = Inl e \<longrightarrow> self' = self)
           \<and> (\<forall>j. loads metadata_bytes = Inr j \<longrightarrow> (\<forall>kvs. j \<noteq> JObj kvs) \<longrightarrow> self' = self)
           \<and> (\<forall>kvs. loads metadata_bytes = Inr (JObj kvs) \<longrightarrow>
                 map_of kvs ''camera_id'' = None \<longrightarrow>
                 self' = self\<lparr>stats := (stats self)\<lparr>camera_id := server_camera_id self\<rparr>\<rparr>
                 \<and> server_camera_id self' = server_camera_id self
                 \<and> (camera_id (stats self) = server_camera_id self \<longrightarrow> self' = self))"
proof -
  define self' where "self' = (case parse_metadata loads self metadata_bytes of
                   Inl e \<Rightarrow> self | Inr self' \<Rightarrow> self')"
  from handshake_stream [OF assms(4) assms(1) assms(2) assms(3), of loads self]
  obtain s2 where h: "handshake loads self (sock w) = (self', s2)"
    and s2: "stream_of s2 = Some rest"
    unfolding self'_def by blast
  have hc: "handle_client loads self w
               = frame_loop \<lparr>this = self', frame_count = 0, window_start = clock w (ticks w)\<rparr>
                   (w\<lparr>ticks := Suc (ticks w), sock := s2\<rparr>)"
    using h by (simp add: handle_client_def time_now_def)
  have a: "\<forall>kvs v. loads metadata_bytes = Inr (JObj kvs) \<longrightarrow>
                 map_of kvs ''camera_id'' = Some v \<longrightarrow>
                 self' = self\<lparr>server_camera_id := v, stats := (stats self)\<lparr>camera_id := v\<rparr>\<rparr>
                 \<and> server_camera_id self' = v \<and> camera_id (stats self') = v"
    unfolding self'_def by (simp add: parse_metadata_cases)
  have b: "\<forall>e. loads metadata_bytes = Inl e \<longrightarrow> self' = self"
    unfolding self'_def by (simp add: parse_metadata_cases)
  have c: "\<forall>j. loads metadata_bytes = Inr j \<longrightarrow> (\<forall>kvs. j \<noteq> JObj kvs) \<longrightarrow> self' = self"
    unfolding self'_def by (auto simp: parse_metadata_cases split: json.splits)
  have d: "\<forall>kvs. loads metadata_bytes = Inr (JObj kvs) \<longrightarrow>
                 map_of kvs ''camera_id'' = None \<longrightarrow>
                 self' = self\<lparr>stats := (stats self)\<lparr>camera_id := server_camera_id self\<rparr>\<rparr>
                 \<and> server_camera_id self' = server_camera_id self
                 \<and> (camera_id (stats self) = server_camera_id self \<longrightarrow> self' = self)"
    unfolding self'_def by (auto simp: parse_metadata_cases)
  show ?thesis
    using h s2 hc a b c d by (intro exI [of _ self'] exI [of _ s2]) simp
qed

theorem handshake_identity_witness:
  "(0::nat) < 21 \<and> (21::nat) < 1024
   \<and> length [123, 34, 99, 97, 109, 101, 114, 97, 95, 105, 100, 34, 58, 34, 67, 97, 109,
             52, 50, 34, 125 :: byte] = 21
   \<and> stream_of [Chunk 0 [0, 0, 21, 123, 34, 99, 97, 109, 101, 114, 97, 95, 105],
                 Chunk 100 [34, 58, 34, 67, 97, 109, 52, 50, 34, 125]]
       = Some (pack_be32 21 @ [123, 34, 99, 97, 109, 101, 114, 97, 95, 105, 100, 34, 58, 34,
                               67, 97, 109, 52, 50, 34, 125] @ [])
   \<and> (\<exists>s2. handshake
         (\<lambda>b. if b = [123, 34, 99, 97, 109, 101, 114, 97, 95, 105, 100, 34, 58, 34, 67, 97,
                       109, 52, 50, 34, 125]
               then Inr (JObj [(''camera_id'', JStr ''Cam42'')]) else Inl JSONDecodeError)
         \<lparr>host = ''0.0.0.0'', port = 5000, frame_queue = Queue 1,
          stats = \<lparr>fps = 0, latency_ms = 0, last_updated = 0, camera_id = JStr ''Camera 1''\<rparr>,
          server_camera_id = JStr ''Camera 1''\<rparr>
         [Chunk 0 [0, 0, 21, 123, 34, 99, 97, 109, 101, 114, 97, 95, 105],
          Chunk 100 [34, 58, 34, 67, 97, 109, 52, 50, 34, 125]]
       = (\<lparr>host = ''0.0.0.0'', port = 5000, frame_queue = Queue 1,
           stats = \<lparr>fps = 0, latency_ms = 0, last_updated = 0, camera_id = JStr ''Cam42''\<rparr>,
           server_camera_id = JStr ''Cam42''\<rparr>, s2))
   \<and> (\<exists>s2. handshake (\<lambda>b. Inl JSONDecodeError)
         \<lparr>host = ''0.0.0.0'', port = 5000, frame_queue = Queue 1,
          stats = \<lparr>fps = 0, latency_ms = 0, last_updated = 0, camera_id = JStr ''Camera 1''\<rparr>,
          server_camera_id = JStr ''Camera 1''\<rparr>
         [Chunk 0 [0, 0, 21, 123, 34, 99, 97, 109, 101, 114, 97, 95, 105],
          Chunk 100 [34, 58, 34, 67, 97, 109, 52, 50, 34, 125]]
       = (\<lparr>host = ''0.0.0.0'', port = 5000, frame_queue = Queue 1,
           stats = \<lparr>fps = 0, latency_ms = 0, last_updated = 0, camera_id = JStr ''Camera 1''\<rparr>,
           server_camera_id = JStr ''Camera 1''\<rparr>, s2))"
proof -
  have p: "pack_be32 21 = [0, 0, 0, 21]"
    by (simp add: pack_be32_def)
  let ?mb = "[123, 34, 99, 97, 109, 101, 114, 97, 95, 105, 100, 34, 58, 34, 67, 97, 109,
             52, 50, 34, 125 :: byte]"
  let ?self = "\<lparr>host = ''0.0.0.0'', port = 5000, frame_queue = Queue 1,
          stats = \<lparr>fps = 0, latency_ms = 0, last_updated = 0, camera_id = JStr ''Camera 1''\<rparr>,
          server_camera_id = JStr ''Camera 1''\<rparr>"
  let ?w = "\<lparr>sock = [Chunk 0 [0, 0, 21, 123, 34, 99, 97, 109, 101, 114, 97, 95, 105],
                 Chunk 100 [34, 58, 34, 67, 97, 109, 52, 50, 34, 125]],
          clock = (\<lambda>k. 7), ticks = 0, flag = (\<lambda>k. True), checks = 0\<rparr>"
  show ?thesis
    using handshake_identity [where n = 21 and metadata_bytes = ?mb and rest = "[]"
        and self = ?self and w = ?w
        and loads = "\<lambda>b. if b = ?mb
               then Inr (JObj [(''camera_id'', JStr ''Cam42'')]) else Inl JSONDecodeError"]
      handshake_identity [where n = 21 and metadata_bytes = ?mb and rest = "[]"
        and self = ?self and w = ?w and loads = "\<lambda>b. Inl JSONDecodeError"]
    by (auto simp: p)
qed

section \<open>The fps window\<close>





section \<open>The frame loop on a stream of frames\<close>

text \<open>
  On a stream of frames in range, read while the endpoint is running, the frame loop
  returns what \<open>deliver_all\<close> gives for the payloads with the successive clock readings:
  \<open>deliver_all\<close> is the effect of the frame loop on the session.
\<close>

lemma frame_loop_deliver_all:
  "stream_of (sock w) = Some (frames_stream ps) \<Longrightarrow>
   \<forall>p \<in> set ps. p \<noteq> [] \<and> length p \<le> 5242880 \<Longrightarrow>
   \<forall>k < length ps. flag w (checks w + k) \<Longrightarrow>
     \<exists>w'. frame_loop ss w
           = (deliver_all ss (zip ps (map (\<lambda>k. clock w (ticks w + k)) [0..<length ps])), w')"
proof (induction ps arbitrary: ss w)
  case Nil
  then have "sock w = []"
    by (simp add: stream_of_Nil)
  from frame_loop_closed [OF this, of ss] show ?case
    by auto
next
  case (Cons p ps)
  let ?w1 = "w\<lparr>checks := Suc (checks w)\<rparr>"
  have run: "flag w (checks w)"
    using Cons.prems(3) by force
  have st: "stream_of (sock ?w1) = Some (pack_be32 (length p) @ p @ frames_stream ps)"
    using Cons.prems(1) by simp
  have L: "0 < length p" "length p \<le> 5242880"
    using Cons.prems(2) by auto
  from frame_step_stream [OF st L refl, of ss]
  obtain ss1 s' where d: "deliver ss p (clock w (ticks w)) = Inr ss1"
    and f: "frame_step ss ?w1 = (Inr (Continue ss1), ?w1\<lparr>sock := s', ticks := Suc (ticks w)\<rparr>)"
    and s': "stream_of s' = Some (frames_stream ps)"
    by auto
  let ?w2 = "?w1\<lparr>sock := s', ticks := Suc (ticks w)\<rparr>"
  have l: "frame_loop ss w = frame_loop ss1 ?w2"
    by (rule frame_loop_continue [OF run frame_try_Inr [OF f]])
  have "stream_of (sock ?w2) = Some (frames_stream ps)"
    using s' by simp
  moreover have "\<forall>p \<in> set ps. p \<noteq> [] \<and> length p \<le> 5242880"
    using Cons.prems(2) by simp
  moreover have "\<forall>k < length ps. flag ?w2 (checks ?w2 + k)"
    using Cons.prems(3) by force
  ultimately obtain w' where "frame_loop ss1 ?w2
      = (deliver_all ss1 (zip ps (map (\<lambda>k. clock ?w2 (ticks ?w2 + k)) [0..<length ps])), w')"
    using Cons.IH [of ?w2 ss1] by blast
  with l d show ?case
    by (intro exI [of _ w']) (simp add: map_upt_Suc del: upt_Suc)
qed

end
